theory Spec2Isabelle
  imports Complex_Main
begin

section \<open>The tic-tac-toe engine of \<^verbatim>\<open>tictactoe.js\<close>\<close>

text \<open>
  JavaScript numbers are modelled as exact rationals: game identifiers are
  integer-valued, player identifiers are a game identifier plus the value of
  \<^verbatim>\<open>Math.random()\<close>, result codes are small negative integers.
  Rounding of doubles, \<^verbatim>\<open>NaN\<close> and the infinities are outside the model.
  The board coordinates \<^verbatim>\<open>boardX\<close> and \<^verbatim>\<open>boardY\<close> are integers. The values
  of \<^verbatim>\<open>Date.now()\<close> and \<^verbatim>\<open>Math.random()\<close> are arguments of the operations
  that read them.
\<close>

type_synonym number = rat

subsection \<open>Result codes\<close>

definition GAME_DOESNT_EXIST :: number where "GAME_DOESNT_EXIST = -2"
definition GAME_NOT_STARTED :: number where "GAME_NOT_STARTED = -3"
definition GAME_ENDED :: number where "GAME_ENDED = -4"
definition GAME_ONGOING :: number where "GAME_ONGOING = -5"
definition PLAYER_DOESNT_EXIST :: number where "PLAYER_DOESNT_EXIST = -6"
definition WRONG_TURN :: number where "WRONG_TURN = -7"
definition INVALID_LOCATION :: number where "INVALID_LOCATION = -8"

subsection \<open>The registry of games\<close>

text \<open>
  A board cell is \<^verbatim>\<open>null\<close> (\<open>None\<close>) or the identifier of the player who took it.
  \<open>board g ! y ! x\<close> is the source's \<^verbatim>\<open>board[boardY][boardX]\<close>.
\<close>

type_synonym cell = "number option"

record game =
  players :: "number list"
  board :: "cell list list"
  activePlayer :: number
  isEnded :: bool

text \<open>
  The global object \<^verbatim>\<open>games\<close>. Its keys are the property names of the
  identifiers; distinct numbers have distinct names, so the keys are the numbers.
  Only \<^verbatim>\<open>createGame\<close> puts a game into the registry, with two player slots
  and three rows of three cells, and no operation changes these lengths
  (lemma \<open>reachable_ok\<close> below), so every read and write by index in the
  operations is within range.
\<close>

type_synonym games = "number \<rightharpoonup> game"

text \<open>
  Reading a field of \<^verbatim>\<open>games[gameId]\<close> when the registry has no such key is a
  \<^verbatim>\<open>TypeError\<close> in JavaScript (\<^verbatim>\<open>games[gameId]\<close> is \<^verbatim>\<open>undefined\<close>).
  An operation yields what the call returns, or the exception it throws, and
  the registry it leaves behind.
\<close>

datatype error = TypeError

type_synonym outcome = "(error + number) \<times> games"

subsection \<open>createGame\<close>

text \<open>The object literal of \<^verbatim>\<open>createGame\<close>.\<close>

definition new_game :: game where
  "new_game =
     \<lparr>players = [-1, -1],
      board = replicate 3 (replicate 3 None),
      activePlayer = 0,
      isEnded = False\<rparr>"

text \<open>
  \<open>now\<close> is the value of \<^verbatim>\<open>Date.now()\<close> (milliseconds, an integer) and
  \<open>rnd\<close> the value of \<^verbatim>\<open>Math.random()\<close>, which lies in \<open>[0, 1)\<close>.
\<close>

definition createGame :: "games \<Rightarrow> int \<Rightarrow> number \<Rightarrow> number \<times> games" where
  "createGame gs now rnd =
     (let gameId = of_int \<lfloor>of_int now * rnd\<rfloor>
      in (gameId, gs(gameId \<mapsto> new_game)))"

subsection \<open>addPlayer\<close>

definition addPlayer :: "games \<Rightarrow> number \<Rightarrow> number \<Rightarrow> outcome" where
  "addPlayer gs gameId rnd =
     (if gameId < 201 then (Inr GAME_DOESNT_EXIST, gs)
      else case gs gameId of
        None \<Rightarrow> (Inl TypeError, gs)
      | Some g \<Rightarrow>
          if isEnded g then (Inr GAME_ENDED, gs)
          else if players g ! 0 > 0 \<and> players g ! 1 > 0 then (Inr GAME_ONGOING, gs)
          else
            let id = gameId + rnd
            in if players g ! 0 \<le> 0
               then (Inr id, gs(gameId \<mapsto> g\<lparr>players := (players g)[0 := id]\<rparr>))
               else (Inr id, gs(gameId \<mapsto> g\<lparr>players := (players g)[1 := id]\<rparr>)))"

subsection \<open>Win and draw detection\<close>

text \<open>
  \<^verbatim>\<open>_isPlayerWin\<close> copies the board into \<^verbatim>\<open>matrix\<close>, replacing each empty
  cell by the running \<^verbatim>\<open>counter\<close>. The counter is incremented once per cell in
  row-major order before the cell is filled, so at \<open>(i, j)\<close> it is \<open>3 * i + j + 1\<close>.
\<close>

definition fill_cell :: "cell \<Rightarrow> nat \<Rightarrow> number" where
  "fill_cell c counter = (case c of None \<Rightarrow> of_nat counter | Some v \<Rightarrow> v)"

definition fill_matrix :: "cell list list \<Rightarrow> number list list" where
  "fill_matrix b =
     map (\<lambda>i. map (\<lambda>j. fill_cell (b ! i ! j) (3 * i + j + 1)) [0, 1, 2]) [0, 1, 2]"

definition isPlayerWin :: "number \<Rightarrow> cell list list \<Rightarrow> bool" where
  "isPlayerWin playerID b =
     (let matrix = fill_matrix b in
      if list_ex (\<lambda>i.
           (matrix ! 0 ! i = matrix ! 1 ! i \<and> matrix ! 1 ! i = matrix ! 2 ! i
              \<and> matrix ! 2 ! i = playerID)
           \<or> (matrix ! i ! 0 = matrix ! i ! 1 \<and> matrix ! i ! 1 = matrix ! i ! 2
              \<and> matrix ! i ! 2 = playerID)) [0, 1, 2]
      then True
      else if matrix ! 0 ! 0 = matrix ! 1 ! 1 \<and> matrix ! 1 ! 1 = matrix ! 2 ! 2
              \<and> matrix ! 2 ! 2 = playerID
      then True
      else matrix ! 0 ! 2 = matrix ! 1 ! 1 \<and> matrix ! 1 ! 1 = matrix ! 2 ! 0
              \<and> matrix ! 2 ! 0 = playerID)"

definition isDraw :: "cell list list \<Rightarrow> bool" where
  "isDraw b = list_all (\<lambda>element. list_all (\<lambda>v. v \<noteq> None) element) b"

subsection \<open>makeMove\<close>

definition makeMove :: "games \<Rightarrow> number \<Rightarrow> number \<Rightarrow> int \<Rightarrow> int \<Rightarrow> outcome" where
  "makeMove gs gameId playerId boardX boardY =
     (if gameId < 201 then (Inr GAME_DOESNT_EXIST, gs)
      else case gs gameId of
        None \<Rightarrow> (Inl TypeError, gs)
      | Some g \<Rightarrow>
          if isEnded g then (Inr GAME_ENDED, gs)
          else if players g ! 0 \<le> 0 \<or> players g ! 1 \<le> 0 then (Inr GAME_NOT_STARTED, gs)
          else if playerId \<notin> set (players g) then (Inr PLAYER_DOESNT_EXIST, gs)
          else if boardX < 0 \<or> boardX > 2 \<or> boardY < 0 \<or> boardY > 2
          then (Inr INVALID_LOCATION, gs)
          else
            let g1 = (if activePlayer g = 0 then g\<lparr>activePlayer := players g ! 0\<rparr> else g);
                gs1 = gs(gameId \<mapsto> g1)
            in if playerId \<noteq> activePlayer g1 then (Inr WRONG_TURN, gs1)
               else if board g1 ! nat boardY ! nat boardX \<noteq> None
               then (Inr INVALID_LOCATION, gs1)
               else
                 let g2 = g1\<lparr>board := (board g1)
                               [nat boardY := (board g1 ! nat boardY)[nat boardX := Some playerId]],
                             activePlayer := (if players g1 ! 0 = playerId
                                              then players g1 ! 1 else players g1 ! 0)\<rparr>
                 in if isPlayerWin playerId (board g2)
                    then (Inr playerId, gs(gameId \<mapsto> g2\<lparr>isEnded := True\<rparr>))
                    else if isDraw (board g2)
                    then (Inr (activePlayer g2), gs(gameId \<mapsto> g2\<lparr>isEnded := True\<rparr>))
                    else (Inr GAME_ONGOING, gs(gameId \<mapsto> g2)))"

subsection \<open>The states the engine reaches\<close>

text \<open>
  The registry starts empty and changes only through the three operations.
  \<^verbatim>\<open>Date.now()\<close> is not negative and \<^verbatim>\<open>Math.random()\<close> lies in \<open>[0, 1)\<close>;
  the arguments of the calls are arbitrary.
\<close>

inductive reachable :: "games \<Rightarrow> bool" where
  init: "reachable Map.empty"
| create: "reachable gs \<Longrightarrow> 0 \<le> now \<Longrightarrow> 0 \<le> rnd \<Longrightarrow> rnd < 1
    \<Longrightarrow> reachable (snd (createGame gs now rnd))"
| add: "reachable gs \<Longrightarrow> 0 \<le> rnd \<Longrightarrow> rnd < 1
    \<Longrightarrow> reachable (snd (addPlayer gs gameId rnd))"
| move: "reachable gs \<Longrightarrow> reachable (snd (makeMove gs gameId playerId boardX boardY))"

subsection \<open>What the specification talks about\<close>

text \<open>
  The eight lines of the board, as (row, column) pairs; a player occupies a
  line when all three of its cells hold the player's identifier.
\<close>

definition lines :: "(nat \<times> nat) list list" where
  "lines =
     [[(0, 0), (0, 1), (0, 2)], [(1, 0), (1, 1), (1, 2)], [(2, 0), (2, 1), (2, 2)],
      [(0, 0), (1, 0), (2, 0)], [(0, 1), (1, 1), (2, 1)], [(0, 2), (1, 2), (2, 2)],
      [(0, 0), (1, 1), (2, 2)], [(0, 2), (1, 1), (2, 0)]]"

definition occupies_line :: "number \<Rightarrow> cell list list \<Rightarrow> bool" where
  "occupies_line p b = list_ex (list_all (\<lambda>(i, j). b ! i ! j = Some p)) lines"

definition board_full :: "cell list list \<Rightarrow> bool" where
  "board_full b = list_all (\<lambda>i. list_all (\<lambda>j. b ! i ! j \<noteq> None) [0, 1, 2]) [0, 1, 2]"

text \<open>
  A player slot is assigned when it holds a positive number: the source tests
  \<^verbatim>\<open>players[k] > 0\<close> and \<^verbatim>\<open>players[k] <= 0\<close>, the empty slot being \<open>-1\<close>.
\<close>

definition assigned :: "number \<Rightarrow> bool" where
  "assigned s = (0 < s)"

text \<open>
  The player whose turn it is once the turn order is fixed: \<^verbatim>\<open>activePlayer\<close>,
  or \<^verbatim>\<open>players[0]\<close> while \<^verbatim>\<open>activePlayer\<close> is still \<open>0\<close>.
\<close>

definition active_now :: "game \<Rightarrow> number" where
  "active_now g = (if activePlayer g = 0 then players g ! 0 else activePlayer g)"

text \<open>
  The result codes that are errors of \<^verbatim>\<open>makeMove\<close> (\<open>GAME_ONGOING\<close> is its
  result for a move that does not end the game) and of \<^verbatim>\<open>addPlayer\<close>.
\<close>

definition is_move_error :: "number \<Rightarrow> bool" where
  "is_move_error r =
     (r = GAME_DOESNT_EXIST \<or> r = GAME_NOT_STARTED \<or> r = GAME_ENDED
      \<or> r = PLAYER_DOESNT_EXIST \<or> r = WRONG_TURN \<or> r = INVALID_LOCATION)"


text \<open>
  The checks of \<^verbatim>\<open>makeMove\<close> on an existing game in the order the
  specification lists them (its items 2 to 7), each with its error; the first
  check that applies decides.
\<close>

definition move_checks :: "game \<Rightarrow> number \<Rightarrow> int \<Rightarrow> int \<Rightarrow> (bool \<times> number) list" where
  "move_checks g p x y =
     [(isEnded g, GAME_ENDED),
      (\<not> assigned (players g ! 0) \<or> \<not> assigned (players g ! 1), GAME_NOT_STARTED),
      (p \<notin> set (players g), PLAYER_DOESNT_EXIST),
      (x \<notin> {0..2} \<or> y \<notin> {0..2}, INVALID_LOCATION),
      (p \<noteq> active_now g, WRONG_TURN),
      (board g ! nat y ! nat x \<noteq> None, INVALID_LOCATION)]"

definition first_match :: "(bool \<times> number) list \<Rightarrow> number option" where
  "first_match cs = map_option snd (find fst cs)"

text \<open>
  The specification's item 1 reads "the identifier does not identify an
  existing game"; with it, the error the specification expects of a call.
\<close>

definition specified_error :: "games \<Rightarrow> number \<Rightarrow> number \<Rightarrow> int \<Rightarrow> int \<Rightarrow> number option" where
  "specified_error gs gameId p x y =
     (case gs gameId of
        None \<Rightarrow> Some GAME_DOESNT_EXIST
      | Some g \<Rightarrow> first_match (move_checks g p x y))"

subsection \<open>Accepted moves\<close>

text \<open>
  A move passes every check of \<^verbatim>\<open>makeMove\<close> on the game \<open>g\<close>, and the game
  after the mark is placed and the turn has passed to the other player.
\<close>

definition move_ok :: "game \<Rightarrow> number \<Rightarrow> int \<Rightarrow> int \<Rightarrow> bool" where
  "move_ok g p x y =
     (\<not> isEnded g \<and> 0 < players g ! 0 \<and> 0 < players g ! 1 \<and> p \<in> set (players g)
      \<and> 0 \<le> x \<and> x \<le> 2 \<and> 0 \<le> y \<and> y \<le> 2
      \<and> active_now g = p \<and> board g ! nat y ! nat x = None)"

definition moved :: "game \<Rightarrow> number \<Rightarrow> int \<Rightarrow> int \<Rightarrow> game" where
  "moved g p x y =
     g\<lparr>board := (board g)[nat y := (board g ! nat y)[nat x := Some p]],
       activePlayer := (if players g ! 0 = p then players g ! 1 else players g ! 0)\<rparr>"

subsection \<open>The invariant of the registry\<close>

text \<open>
  Every game of a reachable registry has two player slots, each empty (\<open>-1\<close>)
  or an identifier of at least 201, a 3 by 3 board whose marks are seated
  players, marks only once both players are seated, and, under an identifier
  below 201, still the state \<^verbatim>\<open>createGame\<close> gave it.
\<close>

definition player_ok :: "number \<Rightarrow> bool" where
  "player_ok p = (p = -1 \<or> 201 \<le> p)"

definition cell_ok :: "number list \<Rightarrow> cell \<Rightarrow> bool" where
  "cell_ok ps c = (case c of None \<Rightarrow> True | Some v \<Rightarrow> v \<in> set ps)"

definition game_ok :: "number \<Rightarrow> game \<Rightarrow> bool" where
  "game_ok gameId g =
     (length (players g) = 2 \<and> list_all player_ok (players g)
      \<and> length (board g) = 3 \<and> list_all (\<lambda>row. length row = 3) (board g)
      \<and> list_all (list_all (cell_ok (players g))) (board g)
      \<and> (board g = board new_game \<or> (0 < players g ! 0 \<and> 0 < players g ! 1))
      \<and> (201 \<le> gameId \<or> g = new_game))"

definition registry_ok :: "games \<Rightarrow> bool" where
  "registry_ok gs = (\<forall>gameId g. gs gameId = Some g \<longrightarrow> game_ok gameId g)"

subsection \<open>Example games\<close>

text \<open>A sequence of moves (player, x, y) on one game, as the test suite plays them.\<close>

fun play :: "games \<Rightarrow> number \<Rightarrow> (number \<times> int \<times> int) list \<Rightarrow> games" where
  "play gs gameId [] = gs"
| "play gs gameId ((p, x, y) # ms) = play (snd (makeMove gs gameId p x y)) gameId ms"

text \<open>
  \<^verbatim>\<open>createGame\<close> at \<^verbatim>\<open>Date.now() = 1000\<close> with \<^verbatim>\<open>Math.random() = 0.5\<close> issues
  the identifier 500, and with \<^verbatim>\<open>Math.random() = 0.1\<close> the identifier 100.
  Two players join game 500 with \<^verbatim>\<open>Math.random()\<close> 0.25 and 0.75.
\<close>

definition alice :: number where "alice = 500 + 1 / 4"
definition bob :: number where "bob = 500 + 3 / 4"

definition fresh500 :: games where
  "fresh500 = snd (createGame Map.empty 1000 (1 / 2))"

definition fresh100 :: games where
  "fresh100 = snd (createGame Map.empty 1000 (1 / 10))"

definition seated :: games where
  "seated = snd (addPlayer (snd (addPlayer fresh500 500 (1 / 4))) 500 (3 / 4))"

definition seated_game :: game where
  "seated_game =
     \<lparr>players = [alice, bob],
      board = [[None, None, None], [None, None, None], [None, None, None]],
      activePlayer = 0, isEnded = False\<rparr>"

text \<open>The first win of the test suite, before and after its last move.\<close>

definition before_win :: games where
  "before_win = play seated 500 [(alice, 0, 0), (bob, 1, 0), (alice, 0, 1), (bob, 1, 1)]"

definition won :: games where
  "won = snd (makeMove before_win 500 alice 0 2)"

definition won_game :: game where
  "won_game =
     \<lparr>players = [alice, bob],
      board = [[Some alice, Some bob, None], [Some alice, Some bob, None],
               [Some alice, None, None]],
      activePlayer = bob, isEnded = True\<rparr>"

text \<open>The first draw of the test suite, before and after its last move.\<close>

definition before_draw :: games where
  "before_draw = play seated 500
     [(alice, 1, 2), (bob, 1, 1), (alice, 0, 2), (bob, 2, 2),
      (alice, 0, 0), (bob, 0, 1), (alice, 2, 1), (bob, 2, 0)]"

definition drawn :: games where
  "drawn = snd (makeMove before_draw 500 alice 1 0)"

definition drawn_game :: game where
  "drawn_game =
     \<lparr>players = [alice, bob],
      board = [[Some alice, Some alice, Some bob], [Some bob, Some bob, Some alice],
               [Some alice, Some alice, Some bob]],
      activePlayer = bob, isEnded = True\<rparr>"

section \<open>Properties\<close>

lemmas codes =
  GAME_DOESNT_EXIST_def GAME_NOT_STARTED_def GAME_ENDED_def GAME_ONGOING_def
  PLAYER_DOESNT_EXIST_def WRONG_TURN_def INVALID_LOCATION_def

subsection \<open>The invariant holds in every reachable registry\<close>

lemma board_new_game: "board new_game = [[None, None, None], [None, None, None], [None, None, None]]"
  by (simp add: new_game_def numeral_3_eq_3)

lemma players_new_game: "players new_game = [-1, -1]"
  by (simp add: new_game_def)

lemma game_ok_new: "game_ok gid new_game"
  by (simp add: game_ok_def board_new_game players_new_game player_ok_def cell_ok_def)

lemma registry_ok_empty: "registry_ok Map.empty"
  by (simp add: registry_ok_def)

lemma registry_ok_upd: "registry_ok gs \<Longrightarrow> game_ok gid g \<Longrightarrow> registry_ok (gs(gid \<mapsto> g))"
  by (simp add: registry_ok_def)

lemma registry_ok_createGame: "registry_ok gs \<Longrightarrow> registry_ok (snd (createGame gs now rnd))"
  by (simp add: createGame_def Let_def registry_ok_upd game_ok_new)

lemma len2: "length xs = 2 \<Longrightarrow> \<exists>a b. xs = [a, b]"
  by (cases xs; cases "tl xs") auto

lemma len3: "length xs = 3 \<Longrightarrow> \<exists>a b c. xs = [a, b, c]"
  by (cases xs; cases "tl xs"; cases "tl (tl xs)") auto

lemma game_ok_shape:
  assumes "game_ok gid g"
  obtains p0 p1 c00 c01 c02 c10 c11 c12 c20 c21 c22 where
    "players g = [p0, p1]"
    "board g = [[c00, c01, c02], [c10, c11, c12], [c20, c21, c22]]"
proof -
  from assms obtain p0 p1 where p: "players g = [p0, p1]"
    using len2 [of "players g"] by (auto simp: game_ok_def)
  from assms obtain r0 r1 r2 where b: "board g = [r0, r1, r2]"
    using len3 [of "board g"] by (auto simp: game_ok_def)
  from assms b have "length r0 = 3" "length r1 = 3" "length r2 = 3"
    by (auto simp: game_ok_def)
  then obtain c00 c01 c02 c10 c11 c12 c20 c21 c22 where
    "r0 = [c00, c01, c02]" "r1 = [c10, c11, c12]" "r2 = [c20, c21, c22]"
    using len3 [of r0] len3 [of r1] len3 [of r2] by auto
  with p b that show thesis by blast
qed

lemma game_ok_addPlayer:
  assumes "game_ok gid g" "201 \<le> gid" "0 \<le> rnd" "\<not> (0 < players g ! 0 \<and> 0 < players g ! 1)"
  shows "game_ok gid (g\<lparr>players := (players g)[0 := gid + rnd]\<rparr>)"
    and "game_ok gid (g\<lparr>players := (players g)[1 := gid + rnd]\<rparr>)"
proof -
  from assms(1) obtain p0 p1 c00 c01 c02 c10 c11 c12 c20 c21 c22 where
    s: "players g = [p0, p1]" "board g = [[c00, c01, c02], [c10, c11, c12], [c20, c21, c22]]"
    by (rule game_ok_shape)
  from assms(1,4) have e: "board g = board new_game"
    by (auto simp: game_ok_def)
  from assms s e show "game_ok gid (g\<lparr>players := (players g)[0 := gid + rnd]\<rparr>)"
    by (simp add: game_ok_def board_new_game player_ok_def cell_ok_def)
  from assms s e show "game_ok gid (g\<lparr>players := (players g)[1 := gid + rnd]\<rparr>)"
    by (simp add: game_ok_def board_new_game player_ok_def cell_ok_def)
qed

lemma registry_ok_addPlayer:
  assumes "registry_ok gs" "0 \<le> rnd"
  shows "registry_ok (snd (addPlayer gs gid rnd))"
proof (cases "gs gid")
  case None
  with assms show ?thesis by (simp add: addPlayer_def)
next
  case (Some g)
  with assms have ok: "game_ok gid g" by (simp add: registry_ok_def)
  show ?thesis
  proof (cases "201 \<le> gid \<and> \<not> isEnded g \<and> \<not> (0 < players g ! 0 \<and> 0 < players g ! 1)")
    case True
    with ok assms(2) game_ok_addPlayer [of gid g rnd]
    have "game_ok gid (g\<lparr>players := (players g)[0 := gid + rnd]\<rparr>)"
      "game_ok gid (g\<lparr>players := (players g)[1 := gid + rnd]\<rparr>)"
      by blast+
    with True Some assms(1) show ?thesis
      by (simp add: addPlayer_def Let_def registry_ok_upd)
  next
    case False
    with Some assms(1) show ?thesis
      by (auto simp: addPlayer_def)
  qed
qed

subsection \<open>The two ways a call of makeMove goes\<close>

lemma makeMove_ok:
  assumes "gs gid = Some g" "201 \<le> gid" "move_ok g p x y"
  shows "makeMove gs gid p x y =
     (if isPlayerWin p (board (moved g p x y))
      then (Inr p, gs(gid \<mapsto> (moved g p x y)\<lparr>isEnded := True\<rparr>))
      else if isDraw (board (moved g p x y))
      then (Inr (activePlayer (moved g p x y)), gs(gid \<mapsto> (moved g p x y)\<lparr>isEnded := True\<rparr>))
      else (Inr GAME_ONGOING, gs(gid \<mapsto> moved g p x y)))"
proof -
  from assms(3) have a: "\<not> isEnded g" "p \<in> set (players g)"
    "\<not> players g ! 0 \<le> 0" "\<not> players g ! 1 \<le> 0" "\<not> x < 0" "\<not> 2 < x"
    "\<not> y < 0" "\<not> 2 < y" "\<not> gid < 201"
    using assms(2) by (simp_all add: move_ok_def)
  from assms(3) have c: "board g ! nat y ! nat x = None" by (simp add: move_ok_def)
  show ?thesis
  proof (cases "activePlayer g = 0")
    case True
    with assms(3) have t: "players g ! 0 = p"
      by (simp add: move_ok_def active_now_def)
    show ?thesis
      unfolding makeMove_def moved_def Let_def
      using assms(1) a c t True by simp
  next
    case False
    with assms(3) have t: "activePlayer g = p"
      by (simp add: move_ok_def active_now_def)
    from False t have z: "p \<noteq> 0" by simp
    show ?thesis
      unfolding makeMove_def moved_def Let_def
      using assms(1) a c t z by simp
  qed
qed

lemma makeMove_rejected:
  assumes "\<not> (201 \<le> gid \<and> (\<exists>g. gs gid = Some g \<and> move_ok g p x y))"
  shows "(fst (makeMove gs gid p x y) = Inl TypeError
          \<or> (\<exists>e. fst (makeMove gs gid p x y) = Inr e \<and> is_move_error e))
        \<and> (snd (makeMove gs gid p x y) = gs
          \<or> (\<exists>g. gs gid = Some g \<and> 201 \<le> gid \<and> activePlayer g = 0
               \<and> 0 \<le> x \<and> x \<le> 2 \<and> 0 \<le> y \<and> y \<le> 2
               \<and> (fst (makeMove gs gid p x y) = Inr WRONG_TURN
                    \<or> fst (makeMove gs gid p x y) = Inr INVALID_LOCATION)
               \<and> snd (makeMove gs gid p x y) = gs(gid \<mapsto> g\<lparr>activePlayer := players g ! 0\<rparr>)))"
proof (cases "gid < 201")
  case True
  then show ?thesis by (simp add: makeMove_def is_move_error_def)
next
  case big: False
  show ?thesis
  proof (cases "gs gid")
    case None
    with big show ?thesis by (simp add: makeMove_def)
  next
    case (Some g)
    with assms big have no: "\<not> move_ok g p x y" by simp
    have upd: "gs(gid \<mapsto> g) = gs" using Some by (simp add: map_upd_triv)
    consider (early) "isEnded g \<or> players g ! 0 \<le> 0 \<or> players g ! 1 \<le> 0
        \<or> p \<notin> set (players g) \<or> x < 0 \<or> 2 < x \<or> y < 0 \<or> 2 < y"
      | (turn) "\<not> isEnded g" "\<not> players g ! 0 \<le> 0" "\<not> players g ! 1 \<le> 0"
          "p \<in> set (players g)" "\<not> x < 0" "\<not> 2 < x" "\<not> y < 0" "\<not> 2 < y"
          "active_now g \<noteq> p"
      | (cell) "\<not> isEnded g" "\<not> players g ! 0 \<le> 0" "\<not> players g ! 1 \<le> 0"
          "p \<in> set (players g)" "\<not> x < 0" "\<not> 2 < x" "\<not> y < 0" "\<not> 2 < y"
          "active_now g = p" "board g ! nat y ! nat x \<noteq> None"
      using no unfolding move_ok_def by fastforce
    then show ?thesis
    proof cases
      case early
      with Some big show ?thesis
        by (auto simp: makeMove_def is_move_error_def)
    next
      case turn
      show ?thesis
      proof (cases "activePlayer g = 0")
        case True
        with turn(9) have "p \<noteq> players g ! 0" by (auto simp: active_now_def)
        with True turn(1-8) Some big show ?thesis
          by (simp add: makeMove_def is_move_error_def Let_def)
      next
        case False
        with turn(9) have "p \<noteq> activePlayer g" by (auto simp: active_now_def)
        with False turn(1-8) Some big upd show ?thesis
          by (simp add: makeMove_def is_move_error_def Let_def)
      qed
    next
      case cell
      show ?thesis
      proof (cases "activePlayer g = 0")
        case True
        with cell(9) have "players g ! 0 = p" by (auto simp: active_now_def)
        with True cell(1-8,10) Some big show ?thesis
          by (simp add: makeMove_def is_move_error_def Let_def)
      next
        case False
        with cell(9) have "activePlayer g = p" by (auto simp: active_now_def)
        with False cell(1-8,10) Some big upd show ?thesis
          by (simp add: makeMove_def is_move_error_def Let_def)
      qed
    qed
  qed
qed

lemma coord_cases:
  assumes "0 \<le> (x::int)" "x \<le> 2"
  obtains "nat x = 0" | "nat x = Suc 0" | "nat x = Suc (Suc 0)"
  using assms by (cases "nat x"; cases "nat x - 1") auto

lemma game_ok_active: "game_ok gid g \<Longrightarrow> 201 \<le> gid \<Longrightarrow> game_ok gid (g\<lparr>activePlayer := a\<rparr>)"
  by (simp add: game_ok_def)

lemma game_ok_ended: "game_ok gid g \<Longrightarrow> 201 \<le> gid \<Longrightarrow> game_ok gid (g\<lparr>isEnded := e\<rparr>)"
  by (simp add: game_ok_def)

lemma game_ok_moved:
  assumes "game_ok gid g" "201 \<le> gid" "move_ok g p x y"
  shows "game_ok gid (moved g p x y)"
proof -
  from assms(1) obtain p0 p1 c00 c01 c02 c10 c11 c12 c20 c21 c22 where
    s: "players g = [p0, p1]" "board g = [[c00, c01, c02], [c10, c11, c12], [c20, c21, c22]]"
    by (rule game_ok_shape)
  from assms(3) have xy: "0 \<le> x" "x \<le> 2" "0 \<le> y" "y \<le> 2"
    and m: "p \<in> set (players g)" "0 < players g ! 0" "0 < players g ! 1"
    by (simp_all add: move_ok_def)
  from xy(1,2) show ?thesis
  proof (cases rule: coord_cases)
    case 1
    from xy(3,4) show ?thesis
      by (cases rule: coord_cases)
        (use assms(1,2) s m 1 in \<open>simp_all add: game_ok_def moved_def cell_ok_def\<close>)
  next
    case 2
    from xy(3,4) show ?thesis
      by (cases rule: coord_cases)
        (use assms(1,2) s m 2 in \<open>simp_all add: game_ok_def moved_def cell_ok_def\<close>)
  next
    case 3
    from xy(3,4) show ?thesis
      by (cases rule: coord_cases)
        (use assms(1,2) s m 3 in \<open>simp_all add: game_ok_def moved_def cell_ok_def\<close>)
  qed
qed

lemma registry_ok_makeMove:
  assumes "registry_ok gs"
  shows "registry_ok (snd (makeMove gs gid p x y))"
proof (cases "201 \<le> gid \<and> (\<exists>g. gs gid = Some g \<and> move_ok g p x y)")
  case True
  then obtain g where g: "201 \<le> gid" "gs gid = Some g" "move_ok g p x y" by blast
  with assms have "game_ok gid g" by (simp add: registry_ok_def)
  with g have "game_ok gid (moved g p x y)" by (simp add: game_ok_moved)
  with g(1) have "game_ok gid ((moved g p x y)\<lparr>isEnded := True\<rparr>)"
    by (simp add: game_ok_ended)
  with \<open>game_ok gid (moved g p x y)\<close> assms show ?thesis
    by (simp add: makeMove_ok [of gs gid g p x y, OF g(2,1,3)] registry_ok_upd)
next
  case False
  from False makeMove_rejected [where gs = gs and gid = gid and p = p and x = x and y = y]
  consider "snd (makeMove gs gid p x y) = gs"
    | g where "gs gid = Some g" "201 \<le> gid"
        "snd (makeMove gs gid p x y) = gs(gid \<mapsto> g\<lparr>activePlayer := players g ! 0\<rparr>)"
    by blast
  then show ?thesis
  proof cases
    case 1
    with assms show ?thesis by simp
  next
    case 2
    with assms have "game_ok gid g" by (simp add: registry_ok_def)
    with 2 assms show ?thesis by (simp add: registry_ok_upd game_ok_active)
  qed
qed

lemma reachable_ok: "reachable gs \<Longrightarrow> registry_ok gs"
  by (induction rule: reachable.induct)
    (simp_all add: registry_ok_empty registry_ok_createGame registry_ok_addPlayer registry_ok_makeMove)

subsection \<open>Win and draw detection on a 3 by 3 board\<close>

lemma fill_cell_eq: "9 < p \<Longrightarrow> n \<le> 9 \<Longrightarrow> (fill_cell c n = p) = (c = Some p)"
proof -
  assume "9 < p" "n \<le> 9"
  then have "(of_nat n :: rat) \<le> of_nat 9" by (simp only: of_nat_le_iff)
  with \<open>9 < p\<close> have "of_nat n \<noteq> p" by simp
  then show ?thesis by (cases c) (auto simp: fill_cell_def)
qed

lemma line_eq:
  assumes "9 < p" "i \<le> 9" "j \<le> 9" "k \<le> 9"
  shows "(fill_cell a i = fill_cell b j \<and> fill_cell b j = fill_cell c k \<and> fill_cell c k = p)
    = (a = Some p \<and> b = Some p \<and> c = Some p)"
proof -
  have "(fill_cell a i = fill_cell b j \<and> fill_cell b j = fill_cell c k \<and> fill_cell c k = p)
    = (fill_cell a i = p \<and> fill_cell b j = p \<and> fill_cell c k = p)"
    by auto
  with assms show ?thesis by (simp add: fill_cell_eq)
qed

lemma isPlayerWin_iff:
  assumes "b = [[c00, c01, c02], [c10, c11, c12], [c20, c21, c22]]" "9 < p"
  shows "isPlayerWin p b = occupies_line p b"
  unfolding isPlayerWin_def fill_matrix_def Let_def occupies_line_def lines_def assms(1)
  using assms(2) by (simp add: line_eq) blast

lemma isDraw_iff:
  assumes "b = [[c00, c01, c02], [c10, c11, c12], [c20, c21, c22]]"
  shows "isDraw b = board_full b"
  unfolding isDraw_def board_full_def assms by simp

subsection \<open>Accepted moves in a reachable registry\<close>

lemma accepted_move:
  assumes "registry_ok gs" "makeMove gs gid p x y = (Inr r, gs')" "\<not> is_move_error r"
  obtains g where "gs gid = Some g" "201 \<le> gid" "move_ok g p x y" "game_ok gid g"
proof -
  have "201 \<le> gid \<and> (\<exists>g. gs gid = Some g \<and> move_ok g p x y)"
  proof (rule ccontr)
    assume n: "\<not> (201 \<le> gid \<and> (\<exists>g. gs gid = Some g \<and> move_ok g p x y))"
    from n makeMove_rejected [where gs = gs and gid = gid and p = p and x = x and y = y]
    have "fst (makeMove gs gid p x y) = Inl TypeError
      \<or> (\<exists>e. fst (makeMove gs gid p x y) = Inr e \<and> is_move_error e)"
      by blast
    with assms(2,3) show False by auto
  qed
  then obtain g where g: "gs gid = Some g" "201 \<le> gid" "move_ok g p x y" by blast
  with assms(1) have "game_ok gid g" by (simp add: registry_ok_def)
  with g that show thesis by blast
qed

lemma mover_large:
  assumes "game_ok gid g" "move_ok g p x y"
  shows "201 \<le> p"
proof -
  from assms(1) obtain p0 p1 where s: "players g = [p0, p1]"
    using len2 [of "players g"] by (auto simp: game_ok_def)
  with assms show ?thesis
    by (auto simp: game_ok_def move_ok_def player_ok_def)
qed

lemma full_no_line:
  assumes "game_ok gid m" "board_full (board m)" "\<not> occupies_line p (board m)"
    "p \<in> set (players m)"
  shows "(if players m ! 0 = p then players m ! 1 else players m ! 0) \<noteq> p"
    and "(if players m ! 0 = p then players m ! 1 else players m ! 0) \<in> set (players m)"
proof -
  from assms(1) obtain p0 p1 c00 c01 c02 c10 c11 c12 c20 c21 c22 where
    s: "players m = [p0, p1]" "board m = [[c00, c01, c02], [c10, c11, c12], [c20, c21, c22]]"
    by (rule game_ok_shape)
  show "(if players m ! 0 = p then players m ! 1 else players m ! 0) \<in> set (players m)"
    using s by simp
  have "\<not> (p0 = p \<and> p1 = p)"
  proof
    assume e: "p0 = p \<and> p1 = p"
    have c: "\<And>c. cell_ok [p, p] c \<Longrightarrow> c \<noteq> None \<Longrightarrow> c = Some p"
      by (auto simp: cell_ok_def)
    from assms(1,2) s e have "c00 = Some p" "c01 = Some p" "c02 = Some p"
      by (simp_all add: game_ok_def board_full_def c)
    with assms(3) s show False
      by (simp add: occupies_line_def lines_def)
  qed
  with s assms(4) show "(if players m ! 0 = p then players m ! 1 else players m ! 0) \<noteq> p"
    by auto
qed

lemma move_result:
  assumes "gs gid = Some g" "201 \<le> gid" "move_ok g p x y" "game_ok gid g"
  shows "makeMove gs gid p x y =
     (if occupies_line p (board (moved g p x y))
      then (Inr p, gs(gid \<mapsto> (moved g p x y)\<lparr>isEnded := True\<rparr>))
      else if board_full (board (moved g p x y))
      then (Inr (activePlayer (moved g p x y)), gs(gid \<mapsto> (moved g p x y)\<lparr>isEnded := True\<rparr>))
      else (Inr GAME_ONGOING, gs(gid \<mapsto> moved g p x y)))"
proof -
  from assms have ok: "game_ok gid (moved g p x y)" by (simp add: game_ok_moved)
  then obtain p0 p1 c00 c01 c02 c10 c11 c12 c20 c21 c22 where
    s: "board (moved g p x y) = [[c00, c01, c02], [c10, c11, c12], [c20, c21, c22]]"
    by (rule game_ok_shape)
  from assms have "201 \<le> p" by (simp add: mover_large)
  then have "9 < p" by simp
  with s have w: "isPlayerWin p (board (moved g p x y)) = occupies_line p (board (moved g p x y))"
    by (rule isPlayerWin_iff)
  from s have d: "isDraw (board (moved g p x y)) = board_full (board (moved g p x y))"
    by (rule isDraw_iff)
  show ?thesis
    unfolding makeMove_ok [of gs gid g p x y, OF assms(1,2,3)] w d ..
qed

subsection \<open>The example games, evaluated\<close>

lemma reachable_play: "reachable gs \<Longrightarrow> reachable (play gs gameId ms)"
  by (induction gs gameId ms rule: play.induct) (simp_all add: reachable.move)

lemma fresh500_eq: "fresh500 = [500 \<mapsto> new_game]"
  by (simp add: fresh500_def createGame_def)

lemma fresh100_eq: "fresh100 = [100 \<mapsto> new_game]"
  by (simp add: fresh100_def createGame_def)

lemma seated_eq: "seated = [500 \<mapsto> seated_game]"
  by (simp add: seated_def seated_game_def fresh500_eq addPlayer_def new_game_def alice_def
      bob_def numeral_3_eq_3 Let_def)

lemmas eval_move = makeMove_def isPlayerWin_def fill_matrix_def fill_cell_def isDraw_def
  alice_def bob_def Let_def

lemma before_win_eq:
  "before_win = [500 \<mapsto> \<lparr>players = [alice, bob],
     board = [[Some alice, Some bob, None], [Some alice, Some bob, None], [None, None, None]],
     activePlayer = alice, isEnded = False\<rparr>]"
  by (simp add: before_win_def seated_eq seated_game_def eval_move del: not_None_eq)

lemma won_eq: "makeMove before_win 500 alice 0 2 = (Inr alice, [500 \<mapsto> won_game])"
  by (simp add: before_win_eq won_game_def eval_move del: not_None_eq)

lemma before_draw_eq:
  "before_draw = [500 \<mapsto> \<lparr>players = [alice, bob],
     board = [[Some alice, None, Some bob], [Some bob, Some bob, Some alice],
              [Some alice, Some alice, Some bob]],
     activePlayer = alice, isEnded = False\<rparr>]"
  by (simp add: before_draw_def seated_eq seated_game_def eval_move del: not_None_eq)

lemma draw_eq: "makeMove before_draw 500 alice 1 0 = (Inr bob, [500 \<mapsto> drawn_game])"
  by (simp add: before_draw_eq drawn_game_def eval_move codes del: not_None_eq)

lemma reachable_fresh500: "reachable fresh500"
  unfolding fresh500_def by (rule reachable.create [OF reachable.init]) simp_all

lemma reachable_fresh100: "reachable fresh100"
  unfolding fresh100_def by (rule reachable.create [OF reachable.init]) simp_all

lemma reachable_seated: "reachable seated"
  unfolding seated_def
  by (rule reachable.add [OF reachable.add [OF reachable_fresh500]]) simp_all

lemma reachable_before_win: "reachable before_win"
  unfolding before_win_def by (rule reachable_play [OF reachable_seated])

lemma reachable_before_draw: "reachable before_draw"
  unfolding before_draw_def by (rule reachable_play [OF reachable_seated])

lemma reachable_won: "reachable won"
  unfolding won_def by (rule reachable.move [OF reachable_before_win])

lemma drawn_eq:
  "makeMove before_draw 500 alice 1 0 = (Inr bob, drawn)"
  unfolding drawn_def by (simp add: draw_eq)

lemma won_state: "makeMove before_win 500 alice 0 2 = (Inr alice, won)"
  unfolding won_def by (simp add: won_eq)

lemma alice_no_error: "\<not> is_move_error alice"
  by (simp add: is_move_error_def codes alice_def)

lemma bob_no_error: "\<not> is_move_error bob"
  by (simp add: is_move_error_def codes bob_def)

subsection \<open>Errors of makeMove and addPlayer\<close>

lemma seated_500: "seated 500 = Some seated_game"
  by (simp add: seated_eq)

lemma won_500: "won 500 = Some won_game"
  by (simp add: won_def won_eq)

lemma fresh100_100: "fresh100 100 = Some new_game"
  by (simp add: fresh100_eq)

lemma first_match_checks:
  "first_match (move_checks g p x y) =
     (if isEnded g then Some GAME_ENDED
      else if players g ! 0 \<le> 0 \<or> players g ! 1 \<le> 0 then Some GAME_NOT_STARTED
      else if p \<notin> set (players g) then Some PLAYER_DOESNT_EXIST
      else if x < 0 \<or> 2 < x \<or> y < 0 \<or> 2 < y then Some INVALID_LOCATION
      else if active_now g \<noteq> p then Some WRONG_TURN
      else if board g ! nat y ! nat x \<noteq> None then Some INVALID_LOCATION
      else None)"
  by (auto simp: first_match_def move_checks_def assigned_def)

lemma first_match_None: "(first_match (move_checks g p x y) = None) = move_ok g p x y"
  unfolding first_match_checks move_ok_def by auto

lemma makeMove_first_error:
  assumes "201 \<le> gid" "gs gid = Some g" "first_match (move_checks g p x y) = Some e"
  shows "fst (makeMove gs gid p x y) = Inr e"
proof -
  from assms(1) have big: "\<not> gid < 201" by simp
  consider (early) "isEnded g \<or> players g ! 0 \<le> 0 \<or> players g ! 1 \<le> 0
      \<or> p \<notin> set (players g) \<or> x < 0 \<or> 2 < x \<or> y < 0 \<or> 2 < y"
    | (turn) "\<not> isEnded g" "\<not> players g ! 0 \<le> 0" "\<not> players g ! 1 \<le> 0"
        "p \<in> set (players g)" "\<not> x < 0" "\<not> 2 < x" "\<not> y < 0" "\<not> 2 < y"
        "active_now g \<noteq> p"
    | (cell) "\<not> isEnded g" "\<not> players g ! 0 \<le> 0" "\<not> players g ! 1 \<le> 0"
        "p \<in> set (players g)" "\<not> x < 0" "\<not> 2 < x" "\<not> y < 0" "\<not> 2 < y"
        "active_now g = p" "board g ! nat y ! nat x \<noteq> None"
    | (ok) "move_ok g p x y"
    unfolding move_ok_def by fastforce
  then show ?thesis
  proof cases
    case early
    with assms(2,3) big show ?thesis
      by (auto simp: makeMove_def first_match_checks split: if_splits)
  next
    case turn
    with assms(3) have e: "e = WRONG_TURN" by (simp add: first_match_checks)
    show ?thesis
    proof (cases "activePlayer g = 0")
      case True
      with turn(9) have "p \<noteq> players g ! 0" by (auto simp: active_now_def)
      with True turn(1-8) assms(2) big e show ?thesis
        by (simp add: makeMove_def Let_def)
    next
      case False
      with turn(9) have "p \<noteq> activePlayer g" by (auto simp: active_now_def)
      with False turn(1-8) assms(2) big e show ?thesis
        by (simp add: makeMove_def Let_def)
    qed
  next
    case cell
    with assms(3) have e: "e = INVALID_LOCATION" by (simp add: first_match_checks)
    show ?thesis
    proof (cases "activePlayer g = 0")
      case True
      with cell(9) have "players g ! 0 = p" by (auto simp: active_now_def)
      with True cell(1-8,10) assms(2) big e show ?thesis
        by (simp add: makeMove_def Let_def)
    next
      case False
      with cell(9) have "activePlayer g = p" by (auto simp: active_now_def)
      with False cell(1-8,10) assms(2) big e show ?thesis
        by (simp add: makeMove_def Let_def)
    qed
  next
    case ok
    with assms(3) show ?thesis by (simp add: first_match_None [symmetric])
  qed
qed

lemma accepted_not_error:
  assumes "registry_ok gs" "201 \<le> gid" "gs gid = Some g" "move_ok g p x y"
  shows "\<exists>r. fst (makeMove gs gid p x y) = Inr r \<and> \<not> is_move_error r"
proof -
  from assms(1,3) have ok: "game_ok gid g" by (simp add: registry_ok_def)
  from ok assms(4) have P: "201 \<le> p" by (rule mover_large)
  from ok obtain p0 p1 where s: "players g = [p0, p1]"
    using len2 [of "players g"] by (auto simp: game_ok_def)
  from assms(4) s have pos: "0 < p0" "0 < p1" by (simp_all add: move_ok_def)
  have a: "activePlayer (moved g p x y) = p0 \<or> activePlayer (moved g p x y) = p1"
    using s by (simp add: moved_def)
  have r: "fst (makeMove gs gid p x y) = Inr p
    \<or> fst (makeMove gs gid p x y) = Inr (activePlayer (moved g p x y))
    \<or> fst (makeMove gs gid p x y) = Inr GAME_ONGOING"
    unfolding move_result [of gs gid g p x y, OF assms(3,2,4) ok] by simp
  have "\<not> is_move_error p" using P by (simp add: is_move_error_def codes)
  moreover have "\<not> is_move_error (activePlayer (moved g p x y))"
    using a pos by (auto simp: is_move_error_def codes)
  moreover have "\<not> is_move_error GAME_ONGOING" by (simp add: is_move_error_def codes)
  ultimately show ?thesis using r by auto
qed


lemma ended_game_rejects_calls:
  assumes "reachable gs" "gs gameId = Some g" "isEnded g"
  shows "addPlayer gs gameId rnd = (Inr GAME_ENDED, gs)"
    and "makeMove gs gameId p x y = (Inr GAME_ENDED, gs)"
proof -
  from assms(1) have "registry_ok gs" by (rule reachable_ok)
  with assms(2) have "game_ok gameId g" by (simp add: registry_ok_def)
  with assms(3) have "\<not> gameId < 201" by (auto simp: game_ok_def new_game_def)
  with assms(2,3) show "addPlayer gs gameId rnd = (Inr GAME_ENDED, gs)"
    and "makeMove gs gameId p x y = (Inr GAME_ENDED, gs)"
    by (simp_all add: addPlayer_def makeMove_def)
qed

subsection \<open>The order of the checks from identifier 201 up\<close>

text \<open>
  On a game of the registry whose identifier is at least 201, \<^verbatim>\<open>makeMove\<close>
  returns the error of the first check of \<open>move_checks\<close> that applies, and in
  a reachable registry a value that is no error code when none applies.
\<close>

lemma makeMove_checks_in_order:
  "(201 \<le> gameId \<and> gs gameId = Some g \<and> first_match (move_checks g p x y) = Some e
        \<longrightarrow> fst (makeMove gs gameId p x y) = Inr e)
   \<and> (reachable gs \<and> 201 \<le> gameId \<and> gs gameId = Some g
        \<and> first_match (move_checks g p x y) = None
        \<longrightarrow> (\<exists>r. fst (makeMove gs gameId p x y) = Inr r \<and> \<not> is_move_error r))
   \<and> (201 \<le> gameId \<and> gs gameId = Some g \<and> \<not> isEnded g
        \<and> assigned (players g ! 0) \<and> assigned (players g ! 1) \<and> p \<in> set (players g)
        \<and> (x \<notin> {0..2} \<or> y \<notin> {0..2}) \<and> p \<noteq> active_now g
        \<longrightarrow> fst (makeMove gs gameId p x y) = Inr INVALID_LOCATION)"
proof (intro conjI impI)
  assume "201 \<le> gameId \<and> gs gameId = Some g \<and> first_match (move_checks g p x y) = Some e"
  then show "fst (makeMove gs gameId p x y) = Inr e"
    by (simp add: makeMove_first_error)
next
  assume a: "reachable gs \<and> 201 \<le> gameId \<and> gs gameId = Some g
    \<and> first_match (move_checks g p x y) = None"
  then have "registry_ok gs" by (simp add: reachable_ok)
  with a show "\<exists>r. fst (makeMove gs gameId p x y) = Inr r \<and> \<not> is_move_error r"
    by (simp add: accepted_not_error first_match_None)
next
  assume a: "201 \<le> gameId \<and> gs gameId = Some g \<and> \<not> isEnded g
        \<and> assigned (players g ! 0) \<and> assigned (players g ! 1) \<and> p \<in> set (players g)
        \<and> (x \<notin> {0..2} \<or> y \<notin> {0..2}) \<and> p \<noteq> active_now g"
  then have "first_match (move_checks g p x y) = Some INVALID_LOCATION"
    by (auto simp: first_match_checks assigned_def)
  with a show "fst (makeMove gs gameId p x y) = Inr INVALID_LOCATION"
    by (simp add: makeMove_first_error)
qed

text \<open>
  On such a game \<^verbatim>\<open>addPlayer\<close> tests \<^verbatim>\<open>isEnded\<close> first, then whether both
  slots are assigned, and else fills slot 0 before slot 1.
\<close>

lemma addPlayer_checks_in_order:
  assumes "201 \<le> gameId" "gs gameId = Some g"
  shows "(isEnded g \<longrightarrow> addPlayer gs gameId rnd = (Inr GAME_ENDED, gs))
    \<and> (\<not> isEnded g \<and> assigned (players g ! 0) \<and> assigned (players g ! 1)
        \<longrightarrow> addPlayer gs gameId rnd = (Inr GAME_ONGOING, gs))
    \<and> (\<not> isEnded g \<and> \<not> assigned (players g ! 0)
        \<longrightarrow> addPlayer gs gameId rnd =
            (Inr (gameId + rnd), gs(gameId \<mapsto> g\<lparr>players := (players g)[0 := gameId + rnd]\<rparr>)))
    \<and> (\<not> isEnded g \<and> assigned (players g ! 0) \<and> \<not> assigned (players g ! 1)
        \<longrightarrow> addPlayer gs gameId rnd =
            (Inr (gameId + rnd), gs(gameId \<mapsto> g\<lparr>players := (players g)[1 := gameId + rnd]\<rparr>)))"
proof -
  from assms(1) have big: "\<not> gameId < 201" by simp
  show ?thesis
    using big assms(2) by (simp add: addPlayer_def assigned_def Let_def not_less)
qed

text \<open>
  Game 100 as \<^verbatim>\<open>createGame\<close> issues it, also at a clock value of the year
  2026.
\<close>

lemma created_100: "createGame Map.empty 1000 (1 / 10) = (100, fresh100)"
  by (simp add: fresh100_def createGame_def Let_def)

lemma created_100_in_2026:
  "createGame Map.empty 1762122840000 (201 / 3524245680000) = (100, fresh100)"
proof -
  have "\<lfloor>201 / 2 :: number\<rfloor> = 100" by (rule floor_unique) simp_all
  then show ?thesis by (simp add: fresh100_eq createGame_def Let_def)
qed

section \<open>The claims\<close>

subsection \<open>C1: an identifier that was never issued\<close>

text \<open>
  Claim C1 says that \<^verbatim>\<open>addPlayer\<close> and \<^verbatim>\<open>makeMove\<close> return
  \<open>GAME_DOESNT_EXIST\<close> for every identifier \<^verbatim>\<open>createGame\<close> never issued.
  The code tests only \<^verbatim>\<open>gameId < 201\<close>: with game 500 the only game,
  identifier 501 passes the test, \<^verbatim>\<open>games[501]\<close> is \<^verbatim>\<open>undefined\<close>, and both
  calls throw a \<^verbatim>\<open>TypeError\<close> where the source's own comments promise
  \<open>GAME_DOESNT_EXIST\<close>.
\<close>

theorem unissued_id_throws:
  "seated 501 = None
   \<and> addPlayer seated 501 (1 / 2) = (Inl TypeError, seated)
   \<and> makeMove seated 501 alice 0 0 = (Inl TypeError, seated)"
  by (simp add: seated_eq addPlayer_def makeMove_def)

subsection \<open>C2: the order of the checks of makeMove\<close>

text \<open>
  Claim C2 says that \<^verbatim>\<open>makeMove\<close> returns the first applicable error, the
  first check being "the game does not exist". The code tests
  \<^verbatim>\<open>gameId < 201\<close> in its place. \<^verbatim>\<open>createGame\<close> at \<^verbatim>\<open>Date.now() = 1000\<close>
  and \<^verbatim>\<open>Math.random() = 0.1\<close> issues game 100; the game exists and has no
  players, so the first applicable error in the claim's order is
  \<open>GAME_NOT_STARTED\<close>, which is also what the source's test
  \<^verbatim>\<open>testAddPlayer\<close> expects of a game just created. The code returns
  \<open>GAME_DOESNT_EXIST\<close>.
\<close>

theorem makeMove_rejects_issued_game:
  "createGame Map.empty 1000 (1 / 10) = (100, fresh100)
   \<and> fresh100 100 = Some new_game
   \<and> specified_error fresh100 100 0 0 0 = Some GAME_NOT_STARTED
   \<and> makeMove fresh100 100 0 0 0 = (Inr GAME_DOESNT_EXIST, fresh100)"
  by (simp add: created_100 specified_error_def fresh100_100 first_match_checks
      players_new_game new_game_def makeMove_def)

subsection \<open>C3: a move wins exactly when the mover holds a line\<close>

text \<open>
  Claim C3. In a reachable registry, let \<^verbatim>\<open>makeMove\<close> by player \<open>P\<close> return a
  value \<open>r\<close> that is not an error code. Then the game is in the registry
  afterwards, and \<open>r = P\<close> with the game ended holds if and only if \<open>P\<close> holds
  all three cells of one of the eight lines of the resulting board. For every
  seated player \<^verbatim>\<open>_isPlayerWin\<close> is true exactly when that player holds a
  line, so a line with an empty cell (filled by the counter 1 to 9 in the
  source) never counts.
\<close>

theorem win_iff_line:
  assumes "reachable gs" "makeMove gs gameId P x y = (Inr r, gs')" "\<not> is_move_error r"
  shows "\<exists>g'. gs' gameId = Some g'
    \<and> ((r = P \<and> isEnded g') = occupies_line P (board g'))
    \<and> (\<forall>q \<in> set (players g'). isPlayerWin q (board g') = occupies_line q (board g'))"
proof -
  from assms(1) have ok: "registry_ok gs" by (rule reachable_ok)
  from ok assms(2,3) obtain g where
    g: "gs gameId = Some g" "201 \<le> gameId" "move_ok g P x y" "game_ok gameId g"
    by (rule accepted_move)
  define m where "m = moved g P x y"
  from g have mok: "game_ok gameId m" by (simp add: m_def game_ok_moved)
  have pm: "players m = players g" "isEnded m = isEnded g"
    by (simp_all add: m_def moved_def)
  from g(3) have pin: "P \<in> set (players m)" "\<not> isEnded m"
    "0 < players m ! 0" "0 < players m ! 1"
    by (simp_all add: pm move_ok_def)
  have act: "activePlayer m = (if players m ! 0 = P then players m ! 1 else players m ! 0)"
    by (simp add: m_def moved_def)
  from mok obtain p0 p1 c00 c01 c02 c10 c11 c12 c20 c21 c22 where
    s: "players m = [p0, p1]" "board m = [[c00, c01, c02], [c10, c11, c12], [c20, c21, c22]]"
    by (rule game_ok_shape)
  have det: "\<forall>q \<in> set (players m). isPlayerWin q (board m) = occupies_line q (board m)"
  proof
    fix q assume "q \<in> set (players m)"
    with mok s pin(3,4) have "201 \<le> q" by (auto simp: game_ok_def player_ok_def)
    then have "9 < q" by simp
    with s(2) show "isPlayerWin q (board m) = occupies_line q (board m)"
      by (rule isPlayerWin_iff)
  qed
  from g have P: "201 \<le> P" by (simp add: mover_large)
  have res: "makeMove gs gameId P x y =
     (if occupies_line P (board m)
      then (Inr P, gs(gameId \<mapsto> m\<lparr>isEnded := True\<rparr>))
      else if board_full (board m)
      then (Inr (activePlayer m), gs(gameId \<mapsto> m\<lparr>isEnded := True\<rparr>))
      else (Inr GAME_ONGOING, gs(gameId \<mapsto> m)))"
    unfolding m_def using g by (rule move_result)
  show ?thesis
  proof (cases "occupies_line P (board m)")
    case True
    with res assms(2) have "r = P" "gs' = gs(gameId \<mapsto> m\<lparr>isEnded := True\<rparr>)" by simp_all
    with True det pm show ?thesis by simp
  next
    case nl: False
    show ?thesis
    proof (cases "board_full (board m)")
      case True
      with nl res assms(2) have e: "r = activePlayer m" "gs' = gs(gameId \<mapsto> m\<lparr>isEnded := True\<rparr>)"
        by simp_all
      from full_no_line(1) [OF mok True nl pin(1)] act have "activePlayer m \<noteq> P" by simp
      with e nl det pm show ?thesis by simp
    next
      case False
      with nl res assms(2) have e: "r = GAME_ONGOING" "gs' = gs(gameId \<mapsto> m)" by simp_all
      with nl det pin(2) show ?thesis by simp
    qed
  qed
qed

theorem win_iff_line_witness:
  "reachable before_win
   \<and> makeMove before_win 500 alice 0 2 = (Inr alice, won)
   \<and> \<not> is_move_error alice
   \<and> (\<exists>g'. won 500 = Some g' \<and> isEnded g' \<and> occupies_line alice (board g')
         \<and> \<not> isPlayerWin bob (board g'))"
proof -
  from win_iff_line [OF reachable_before_win won_state alice_no_error]
  obtain g' where g: "won 500 = Some g'"
    "(alice = alice \<and> isEnded g') = occupies_line alice (board g')"
    "\<forall>q \<in> set (players g'). isPlayerWin q (board g') = occupies_line q (board g')"
    by blast
  from g(1) have e: "isEnded g'" "players g' = [alice, bob]"
    "board g' = [[Some alice, Some bob, None], [Some alice, Some bob, None],
                 [Some alice, None, None]]"
    by (auto simp: won_def won_eq won_game_def)
  from g(2) e(1) have l: "occupies_line alice (board g')" by simp
  from g(3) e(2) have "isPlayerWin bob (board g') = occupies_line bob (board g')" by simp
  moreover have "\<not> occupies_line bob (board g')"
    unfolding e(3) by (simp add: occupies_line_def lines_def alice_def bob_def)
  ultimately have "\<not> isPlayerWin bob (board g')" by simp
  with g(1) e(1) l reachable_before_win won_state alice_no_error show ?thesis by blast
qed

subsection \<open>C4: a move without a line ends the game exactly on a full board\<close>

text \<open>
  Claim C4. In a reachable registry, after an accepted \<^verbatim>\<open>makeMove\<close> by \<open>P\<close>
  that leaves \<open>P\<close> without a line, the game is ended if and only if all nine
  cells are occupied; then the value returned is the new \<^verbatim>\<open>activePlayer\<close>, a
  seated player other than \<open>P\<close>; with a cell still empty the game is not ended
  and the value returned is \<open>GAME_ONGOING\<close>.
\<close>

theorem draw_iff_full:
  assumes "reachable gs" "makeMove gs gameId P x y = (Inr r, gs')" "\<not> is_move_error r"
    "gs' gameId = Some g'" "\<not> occupies_line P (board g')"
  shows "(isEnded g' = board_full (board g'))
    \<and> (board_full (board g') \<longrightarrow> r = activePlayer g' \<and> r \<in> set (players g') \<and> r \<noteq> P)
    \<and> (\<not> board_full (board g') \<longrightarrow> r = GAME_ONGOING)"
proof -
  from assms(1) have ok: "registry_ok gs" by (rule reachable_ok)
  from ok assms(2,3) obtain g where
    g: "gs gameId = Some g" "201 \<le> gameId" "move_ok g P x y" "game_ok gameId g"
    by (rule accepted_move)
  define m where "m = moved g P x y"
  from g have mok: "game_ok gameId m" by (simp add: m_def game_ok_moved)
  have pm: "players m = players g" "isEnded m = isEnded g"
    by (simp_all add: m_def moved_def)
  from g(3) have pin: "P \<in> set (players m)" "\<not> isEnded m"
    by (simp_all add: pm move_ok_def)
  have act: "activePlayer m = (if players m ! 0 = P then players m ! 1 else players m ! 0)"
    by (simp add: m_def moved_def)
  have res: "makeMove gs gameId P x y =
     (if occupies_line P (board m)
      then (Inr P, gs(gameId \<mapsto> m\<lparr>isEnded := True\<rparr>))
      else if board_full (board m)
      then (Inr (activePlayer m), gs(gameId \<mapsto> m\<lparr>isEnded := True\<rparr>))
      else (Inr GAME_ONGOING, gs(gameId \<mapsto> m)))"
    unfolding m_def using g by (rule move_result)
  have b: "board g' = board m"
    using res assms(2,4) by (auto split: if_splits)
  with assms(5) have nl: "\<not> occupies_line P (board m)" by simp
  show ?thesis
  proof (cases "board_full (board m)")
    case True
    with nl res assms(2,4) have e: "r = activePlayer m" "g' = m\<lparr>isEnded := True\<rparr>"
      by auto
    from full_no_line [OF mok True nl pin(1)] act
    have "activePlayer m \<noteq> P" "activePlayer m \<in> set (players m)" by simp_all
    with e True show ?thesis by simp
  next
    case False
    with nl res assms(2,4) have e: "r = GAME_ONGOING" "g' = m" by auto
    with False pin(2) show ?thesis by simp
  qed
qed

theorem draw_iff_full_witness:
  "reachable before_draw
   \<and> makeMove before_draw 500 alice 1 0 = (Inr bob, drawn)
   \<and> \<not> is_move_error bob
   \<and> (\<exists>g'. drawn 500 = Some g' \<and> \<not> occupies_line alice (board g')
         \<and> isEnded g' \<and> board_full (board g') \<and> bob = activePlayer g'
         \<and> bob \<in> set (players g') \<and> bob \<noteq> alice)"
proof -
  define g' where "g' = drawn_game"
  have d: "drawn 500 = Some g'"
    by (simp add: drawn_def draw_eq g'_def)
  have n: "\<not> occupies_line alice (board g')"
    by (simp add: g'_def drawn_game_def occupies_line_def lines_def alice_def bob_def)
  from draw_iff_full [OF reachable_before_draw drawn_eq bob_no_error d n]
  have "isEnded g' = board_full (board g')"
    "board_full (board g') \<longrightarrow> bob = activePlayer g' \<and> bob \<in> set (players g') \<and> bob \<noteq> alice"
    by blast+
  moreover have "isEnded g'" by (simp add: g'_def drawn_game_def)
  ultimately have "board_full (board g')" "bob = activePlayer g'" "bob \<in> set (players g')"
    "bob \<noteq> alice"
    by blast+
  with d n \<open>isEnded g'\<close> reachable_before_draw drawn_eq bob_no_error show ?thesis by blast
qed

subsection \<open>C5: an ended game stays as it is\<close>

text \<open>
  Claim C5 says that no operation changes an ended game or resets its
  \<^verbatim>\<open>isEnded\<close> flag. \<^verbatim>\<open>addPlayer\<close> and \<^verbatim>\<open>makeMove\<close> indeed return
  \<open>GAME_ENDED\<close> and change nothing (lemma \<open>ended_game_rejects_calls\<close>), but
  \<^verbatim>\<open>createGame\<close> overwrites the game when it draws the identifier again:
  after the win in game 500, \<^verbatim>\<open>createGame\<close> at \<^verbatim>\<open>Date.now() = 1000\<close> and
  \<^verbatim>\<open>Math.random() = 0.5\<close> issues 500 once more and puts a new game in its
  place, not ended and with an empty board.
\<close>

theorem createGame_resets_ended_game:
  "won 500 = Some won_game \<and> isEnded won_game
   \<and> createGame won 1000 (1 / 2) = (500, won(500 \<mapsto> new_game))
   \<and> \<not> isEnded new_game \<and> board new_game \<noteq> board won_game"
proof -
  have "\<not> isEnded new_game" by (simp add: new_game_def)
  then show ?thesis
    by (simp add: won_500 createGame_def won_game_def board_new_game)
qed

subsection \<open>C6: what an error leaves behind\<close>




subsection \<open>C7: the identifier of a new game\<close>

text \<open>
  Claim C7 says that the identifier \<^verbatim>\<open>createGame\<close> returns is distinct from
  every existing game identifier. The identifier is
  \<^verbatim>\<open>Math.floor(Date.now() * Math.random())\<close> and nothing compares it with the
  registry: with game 500 in play, \<^verbatim>\<open>Date.now() = 1000\<close> and
  \<^verbatim>\<open>Math.random() = 0.5\<close> give 500 again, and the game in play is replaced
  by a new one.
\<close>

theorem createGame_reissues_id:
  "seated 500 = Some seated_game
   \<and> createGame seated 1000 (1 / 2) = (500, seated(500 \<mapsto> new_game))
   \<and> seated_game \<noteq> new_game"
proof -
  have "players seated_game \<noteq> players new_game"
    by (simp add: seated_game_def new_game_def alice_def)
  then have "seated_game \<noteq> new_game" by metis
  then show ?thesis by (simp add: seated_500 createGame_def)
qed

subsection \<open>C8: the identifiers of the two players\<close>

text \<open>
  Claim C8 says that two calls of \<^verbatim>\<open>addPlayer\<close> on a fresh game return two
  distinct player identifiers, each different from every game identifier. The
  identifier is \<^verbatim>\<open>gameId + Math.random()\<close>: when \<^verbatim>\<open>Math.random()\<close> gives
  0.25 twice, both players of game 500 get 500.25; when it gives 0, the player
  gets 500, the identifier of the game.
\<close>

theorem addPlayer_repeats_id:
  "fst (addPlayer fresh500 500 (1 / 4)) = Inr alice
   \<and> fst (addPlayer (snd (addPlayer fresh500 500 (1 / 4))) 500 (1 / 4)) = Inr alice
   \<and> map_option players (snd (addPlayer (snd (addPlayer fresh500 500 (1 / 4))) 500 (1 / 4)) 500)
       = Some [alice, alice]
   \<and> fst (addPlayer fresh500 500 0) = Inr 500"
  by (simp add: fresh500_eq addPlayer_def new_game_def alice_def Let_def)

subsection \<open>C9: the order of the checks of addPlayer\<close>

text \<open>
  Claim C9 says that \<^verbatim>\<open>addPlayer\<close> on an existing game that has not ended
  and has its first slot unassigned fills slot 0 and returns the new player's
  identifier. Game 100, issued by \<^verbatim>\<open>createGame\<close> at \<^verbatim>\<open>Date.now() = 1000\<close> and
  \<^verbatim>\<open>Math.random() = 0.1\<close>, is such a game, and the source's test
  \<^verbatim>\<open>testAddPlayer\<close> expects a valid identifier from \<^verbatim>\<open>addPlayer\<close> on a game
  just created. The code returns \<open>GAME_DOESNT_EXIST\<close> and fills no slot.
\<close>

theorem addPlayer_rejects_issued_game:
  "createGame Map.empty 1000 (1 / 10) = (100, fresh100)
   \<and> fresh100 100 = Some new_game
   \<and> \<not> isEnded new_game \<and> \<not> assigned (players new_game ! 0)
   \<and> addPlayer fresh100 100 (1 / 2) = (Inr GAME_DOESNT_EXIST, fresh100)"
  by (simp add: created_100 fresh100_100 new_game_def assigned_def addPlayer_def)

subsection \<open>C10: identifiers below 201 are rejected without a look at the registry\<close>

text \<open>
  Claim C10. For every identifier below 201 and every registry, \<^verbatim>\<open>addPlayer\<close>
  and \<^verbatim>\<open>makeMove\<close> return \<open>GAME_DOESNT_EXIST\<close> and leave the registry as it
  is, whether or not the registry has the game. \<^verbatim>\<open>createGame\<close> issues any
  identifier \<open>n \<ge> 0\<close> for suitable values of the clock and of the random
  number (\<open>n + 1\<close> and \<open>n / (n + 1)\<close>), so also those below 201; and in every
  reachable registry a game below 201 is still as \<^verbatim>\<open>createGame\<close> left it.
\<close>

theorem low_ids_unreachable:
  "(gameId < 201 \<longrightarrow>
      addPlayer gs gameId rnd = (Inr GAME_DOESNT_EXIST, gs)
      \<and> makeMove gs gameId p x y = (Inr GAME_DOESNT_EXIST, gs))
   \<and> (0 \<le> n \<longrightarrow>
      0 \<le> (of_int n / of_int (n + 1) :: number) \<and> (of_int n / of_int (n + 1) :: number) < 1
      \<and> createGame gs (n + 1) (of_int n / of_int (n + 1)) = (of_int n, gs(of_int n \<mapsto> new_game)))
   \<and> (reachable gs \<and> gameId < 201 \<and> gs gameId = Some g \<longrightarrow> g = new_game)"
proof (intro conjI impI)
  assume "gameId < 201"
  then show "addPlayer gs gameId rnd = (Inr GAME_DOESNT_EXIST, gs)"
    by (simp add: addPlayer_def)
next
  assume "gameId < 201"
  then show "makeMove gs gameId p x y = (Inr GAME_DOESNT_EXIST, gs)"
    by (simp add: makeMove_def)
next
  assume "0 \<le> n"
  then show "0 \<le> (of_int n / of_int (n + 1) :: number)" by simp
next
  assume "0 \<le> n"
  then show "(of_int n / of_int (n + 1) :: number) < 1" by simp
next
  assume n: "0 \<le> n"
  then have "(of_int (n + 1) :: number) \<noteq> 0" by simp
  then have "(of_int (n + 1) :: number) * (of_int n / of_int (n + 1)) = of_int n"
    by simp
  then show "createGame gs (n + 1) (of_int n / of_int (n + 1)) = (of_int n, gs(of_int n \<mapsto> new_game))"
    by (simp add: createGame_def Let_def)
next
  assume a: "reachable gs \<and> gameId < 201 \<and> gs gameId = Some g"
  then have "registry_ok gs" by (simp add: reachable_ok)
  with a have "game_ok gameId g" by (simp add: registry_ok_def)
  with a show "g = new_game" by (simp add: game_ok_def)
qed

theorem low_ids_unreachable_witness:
  "(100 :: number) < 201
   \<and> addPlayer fresh100 100 (1 / 2) = (Inr GAME_DOESNT_EXIST, fresh100)
   \<and> makeMove fresh100 100 0 0 0 = (Inr GAME_DOESNT_EXIST, fresh100)
   \<and> createGame Map.empty 101 (100 / 101) = (100, [100 \<mapsto> new_game])
   \<and> reachable fresh100 \<and> fresh100 100 = Some new_game"
  using low_ids_unreachable [of 100 fresh100 "1 / 2" 0 0 0 100 new_game]
    low_ids_unreachable [of 100 Map.empty "1 / 2" 0 0 0 100 new_game] reachable_fresh100
  by (simp add: fresh100_eq)

end
